theory Spec2Isabelle
  imports Main "HOL-Library.Word"
begin

unbundle bit_operations_syntax

section \<open>The CC2500 radio driver (lib/radio_cc2500.c)\<close>

text \<open>
  A shallow embedding of the packet driver: the outbound framing
  (\<open>cc2500_tx_packet\<close>), the blocking transmit handshake (\<open>cc2500_tx\<close>), the
  receive path (\<open>receive_packet\<close>), the port interrupt handler (\<open>port2_isr\<close>) and
  the power lookup (\<open>cc2500_set_power\<close>).

  The microcontroller is a \<open>machine\<close>: its RAM as a store from addresses to bytes,
  the port registers of the GDO0 pin, the radio chip as seen through the peripheral
  functions, and a trace that records every bus operation, register write, store
  to RAM and callback invocation in program order.  Every C function becomes a
  function that takes the machine and returns the updated one.
\<close>

subsection \<open>Bytes, addresses, registers\<close>

type_synonym u8 = "8 word"

text \<open>A pointer is the address of a byte of RAM; \<open>p[i]\<close> is the byte at \<open>p + i\<close>.\<close>

type_synonym addr = nat

text \<open>The strobe commands and chip registers the driver names (macros of cc2500.h).\<close>

datatype strobe_cmd = SRX | STX | SFRX

datatype chip_reg = FIFO | PATABLE | RXBYTES

datatype event =
    Strobe strobe_cmd
  | Read_status chip_reg u8
  | Read_burst chip_reg "u8 list"
  | Write_burst chip_reg "u8 list"
  | Mem_write addr u8
  | Read_PxIN u8
  | Write_PxIE u8
  | Write_PxIFG u8
  | Rx_callback addr u8

text \<open>
  The constants the file takes from headers that are not part of it, and the
  addresses the linker gives its two static buffers.  They are parameters of the
  model: \<open>CC2500_BUFFER_LENGTH\<close> is the number of elements of \<open>p_rx_buffer\<close> and of
  \<open>p_tx_buffer\<close>, \<open>NUM_RXBYTES\<close> the mask of the byte count in the RXBYTES status,
  \<open>GDO0_PIN\<close> the bit of the radio's signal pin in the port registers.  The
  handler keeps \<open>CC2500_BUFFER_LENGTH\<close> in a \<open>uint8_t\<close> (line 213); the model
  truncates it there, and the theorems about whole frames take it to be at most
  255.
\<close>

record board =
  CC2500_BUFFER_LENGTH :: nat
  NUM_RXBYTES :: u8
  GDO0_PIN :: u8
  p_rx_buffer :: addr
  p_tx_buffer :: addr

text \<open>
  \<open>GDO0_PxIN\<close> is an input port: the list holds the values that successive reads
  of it return.  \<open>chip_status\<close> is what a status read of a chip register returns,
  \<open>rx_fifo i\<close> the byte the chip hands out on the \<open>i\<close>-th next read of its
  receive FIFO.
\<close>

record machine =
  mem :: "addr \<Rightarrow> u8"
  GDO0_PxIE :: u8
  GDO0_PxIFG :: u8
  GDO0_PxIN :: "u8 list"
  chip_status :: "chip_reg \<Rightarrow> u8"
  rx_fifo :: "nat \<Rightarrow> u8"
  trace :: "event list"

text \<open>
  A busy-wait loop of the driver has no timeout.  A run either returns, or is
  still polling when the recorded pin samples end: \<open>Spins\<close> carries the machine
  as far as the run got.
\<close>

datatype run = Returns machine | Spins machine

fun machine_of :: "run \<Rightarrow> machine" where
  "machine_of (Returns m) = m"
| "machine_of (Spins m) = m"

subsection \<open>Field positions (radio_cc2500.c, lines 15-17)\<close>

definition LENGTH_FIELD :: nat where "LENGTH_FIELD = 0"
definition ADDRESS_FIELD :: nat where "ADDRESS_FIELD = 1"
definition DATA_FIELD :: nat where "DATA_FIELD = 2"

text \<open>
  Modelled from the spec: the macro \<open>LQI_POS\<close> of cc2500.h, which is not among the
  sources.  The spec has the CRC-valid bit in the second status byte, the one at
  index 1 of \<open>status\<close>.
\<close>

definition LQI_POS :: nat where "LQI_POS = 1"

text \<open>
  Modelled from the spec: the macro \<open>CRC_OK\<close> of cc2500.h, which is not among the
  sources.  The spec has the CRC-valid bit in the high bit of that byte.
\<close>

definition CRC_OK :: u8 where "CRC_OK = 0x80"

subsection \<open>RAM\<close>

definition log :: "event \<Rightarrow> machine \<Rightarrow> machine" where
  "log e m = m\<lparr>trace := trace m @ [e]\<rparr>"

definition store :: "addr \<Rightarrow> u8 \<Rightarrow> machine \<Rightarrow> machine" where
  "store a v m = log (Mem_write a v) (m\<lparr>mem := (mem m)(a := v)\<rparr>)"

text \<open>Writing \<open>bs\<close> to \<open>p[0]\<close>, \<open>p[1]\<close>, ... in ascending order.\<close>

fun store_bytes :: "addr \<Rightarrow> u8 list \<Rightarrow> machine \<Rightarrow> machine" where
  "store_bytes p [] m = m"
| "store_bytes p (b # bs) m = store_bytes (Suc p) bs (store p b m)"

definition load_bytes :: "addr \<Rightarrow> nat \<Rightarrow> machine \<Rightarrow> u8 list" where
  "load_bytes p n m = map (\<lambda>i. mem m (p + i)) [0..<n]"

text \<open>
  \<open>memcpy(dst, src, n)\<close>.  C leaves the copy of overlapping regions undefined;
  the theorems below that go through it assume the regions disjoint.
\<close>

definition memcpy :: "addr \<Rightarrow> addr \<Rightarrow> nat \<Rightarrow> machine \<Rightarrow> machine" where
  "memcpy dst src n m = store_bytes dst (load_bytes src n m) m"

subsection \<open>The peripheral interface\<close>

text \<open>
  The functions \<open>strobe\<close>, \<open>read_status\<close>, \<open>read_burst_register\<close> and
  \<open>write_burst_register\<close> are defined in cc2500.c, which is not among the sources.
  Each is modelled from section 6 of the spec and recorded in the trace.
\<close>

text \<open>
  Modelled from the spec: \<open>strobe(command_id)\<close> of cc2500.c, "fire a one-shot chip
  command".
\<close>

definition strobe :: "strobe_cmd \<Rightarrow> machine \<Rightarrow> machine" where
  "strobe c m = log (Strobe c) m"

text \<open>
  Modelled from the spec: \<open>read_status(register_id)\<close> of cc2500.c, "pull status
  from the chip".  The byte is whatever the chip holds; nothing ties it to the
  contents of the FIFO.
\<close>

definition read_status :: "chip_reg \<Rightarrow> machine \<Rightarrow> u8 \<times> machine" where
  "read_status r m = (chip_status m r, log (Read_status r (chip_status m r)) m)"

text \<open>
  Modelled from the spec: \<open>read_burst_register(register_id, out_bytes, count)\<close> of
  cc2500.c, "pull FIFO bytes from the chip".  It takes the next \<open>count\<close> bytes the
  receive FIFO hands out (the driver reads no other register in bursts) and
  returns them; the caller stores them where the C passes a pointer into RAM, and
  keeps them as a value where it passes the address of a local.
\<close>

definition read_burst_register :: "chip_reg \<Rightarrow> nat \<Rightarrow> machine \<Rightarrow> u8 list \<times> machine" where
  "read_burst_register r n m =
     (let bs = map (rx_fifo m) [0..<n]
      in (bs, log (Read_burst r bs) (m\<lparr>rx_fifo := (\<lambda>i. rx_fifo m (i + n))\<rparr>)))"

text \<open>
  Modelled from the spec: \<open>write_burst_register(register_id, bytes, count)\<close> of
  cc2500.c, "push configuration or FIFO bytes to the chip".  The caller loads the
  \<open>count\<close> bytes from RAM.
\<close>

definition write_burst_register :: "chip_reg \<Rightarrow> u8 list \<Rightarrow> machine \<Rightarrow> machine" where
  "write_burst_register r bs m = log (Write_burst r bs) m"

subsection \<open>Port registers\<close>

definition write_PxIE :: "u8 \<Rightarrow> machine \<Rightarrow> machine" where
  "write_PxIE v m = log (Write_PxIE v) (m\<lparr>GDO0_PxIE := v\<rparr>)"

definition write_PxIFG :: "u8 \<Rightarrow> machine \<Rightarrow> machine" where
  "write_PxIFG v m = log (Write_PxIFG v) (m\<lparr>GDO0_PxIFG := v\<rparr>)"

text \<open>
  \<open>while (c(GDO0_PxIN));\<close>: each test reads the port once.  The loop goes on
  while \<open>c\<close> holds of the value read.
\<close>

function poll_while :: "(u8 \<Rightarrow> bool) \<Rightarrow> machine \<Rightarrow> run" where
  "poll_while c m =
     (case GDO0_PxIN m of
        [] \<Rightarrow> Spins m
      | v # vs \<Rightarrow>
          (let m' = log (Read_PxIN v) (m\<lparr>GDO0_PxIN := vs\<rparr>)
           in if c v then poll_while c m' else Returns m'))"
  by pat_completeness auto
termination
  by (relation "measure (\<lambda>(c, m). length (GDO0_PxIN m))") (auto simp: log_def)

subsection \<open>Transmit (lines 67-109)\<close>

definition cc2500_tx :: "board \<Rightarrow> addr \<Rightarrow> u8 \<Rightarrow> machine \<Rightarrow> run" where
  "cc2500_tx h p_buffer len m =
     (let m1 = write_PxIE (GDO0_PxIE m AND NOT (GDO0_PIN h)) m;
          m2 = write_burst_register FIFO (load_bytes p_buffer (unat len) m1) m1;
          m3 = strobe STX m2
      in case poll_while (\<lambda>v. v AND GDO0_PIN h = 0) m3 of
           Spins m4 \<Rightarrow> Spins m4
         | Returns m4 \<Rightarrow>
             (case poll_while (\<lambda>v. v AND GDO0_PIN h \<noteq> 0) m4 of
                Spins m5 \<Rightarrow> Spins m5
              | Returns m5 \<Rightarrow>
                  (let m6 = write_PxIFG (GDO0_PxIFG m5 AND NOT (GDO0_PIN h)) m5;
                       m7 = write_PxIE (GDO0_PxIE m6 OR GDO0_PIN h) m6
                   in Returns m7)))"

definition cc2500_tx_packet :: "board \<Rightarrow> addr \<Rightarrow> u8 \<Rightarrow> u8 \<Rightarrow> machine \<Rightarrow> run" where
  "cc2500_tx_packet h p_buffer len destination m =
     (let m1 = store (p_tx_buffer h + LENGTH_FIELD) (len + 1) m;
          m2 = store (p_tx_buffer h + ADDRESS_FIELD) destination m1;
          m3 = memcpy (p_tx_buffer h + DATA_FIELD) p_buffer (unat len) m2
      in cc2500_tx h (p_tx_buffer h) (len + 2) m3)"

subsection \<open>Transmit power (lines 34-39, 135-145)\<close>

definition power_table :: "u8 list" where
  "power_table =
     [0x00, 0x50, 0x44, 0xC0,
      0x84, 0x81, 0x46, 0x93,
      0x55, 0x8D, 0xC6, 0x97,
      0x6E, 0x7F, 0xA9, 0xBB,
      0xFE, 0xFF]"

text \<open>
  A read of \<open>power_table[i]\<close> with \<open>i\<close> outside the table is a read of whatever
  the linker placed behind it: the model makes it an error value.
\<close>

datatype error = Table_overrun nat

definition cc2500_set_power :: "u8 \<Rightarrow> machine \<Rightarrow> error + machine" where
  "cc2500_set_power pwr m =
     (let pwr' = (if unat pwr > length power_table
                  then of_nat (length power_table - 1) else pwr) :: u8
      in if unat pwr' < length power_table
         then Inr (write_burst_register PATABLE [power_table ! unat pwr'] m)
         else Inl (Table_overrun (unat pwr')))"

subsection \<open>Receive (lines 151-238)\<close>

text \<open>
  The callback is application code: any function from the buffer pointer, the
  length and the machine to a return value and a machine.
\<close>

type_synonym callback = "addr \<Rightarrow> u8 \<Rightarrow> machine \<Rightarrow> u8 \<times> machine"

definition dummy_callback :: callback where
  "dummy_callback buffer len m = (0, m)"

text \<open>
  \<open>receive_packet(p_buffer, length)\<close>: the cell \<open>*length\<close> is passed in and handed
  back (second component of the result); the first component is the return value.
  The locals \<open>packet_length\<close> and \<open>status\<close> are values, not RAM.
\<close>

definition receive_packet :: "board \<Rightarrow> addr \<Rightarrow> u8 \<Rightarrow> machine \<Rightarrow> u8 \<times> u8 \<times> machine" where
  "receive_packet h p_buffer len m =
     (let (rxbytes, m1) = read_status RXBYTES m
      in if rxbytes AND NUM_RXBYTES h \<noteq> 0 then
           (let (hdr, m2) = read_burst_register FIFO 1 m1;
                packet_length = hdr ! 0
            in if packet_length \<le> len then
                 (let (payload, m3) = read_burst_register FIFO (unat packet_length) m2;
                      m4 = store_bytes p_buffer payload m3;
                      len' = packet_length;
                      (status, m5) = read_burst_register FIFO 2 m4;
                      m6 = store_bytes (p_buffer + unat packet_length) status m5
                  in (status ! LQI_POS AND CRC_OK, len', m6))
               else
                 (0, packet_length, strobe SFRX m2))
         else (0, len, m1))"

definition port2_isr :: "board \<Rightarrow> callback \<Rightarrow> machine \<Rightarrow> machine" where
  "port2_isr h rx_callback m =
     (let len = (of_nat (CC2500_BUFFER_LENGTH h) :: u8);
          m' = (if GDO0_PxIFG m AND GDO0_PIN h \<noteq> 0 then
                  (let (ok, len', m1) = receive_packet h (p_rx_buffer h) len m
                   in if ok \<noteq> 0
                      then snd (rx_callback (p_rx_buffer h) len'
                                  (log (Rx_callback (p_rx_buffer h) len') m1))
                      else m1)
                else m)
      in write_PxIFG (GDO0_PxIFG m' AND NOT (GDO0_PIN h)) m')"

subsection \<open>Reading a trace\<close>

text \<open>
  What a stretch of the trace holds of one kind of effect, in program order: the
  stores to RAM (address and byte), the callback invocations (buffer pointer and
  length), the byte strings burst-written to the chip's FIFO register, the strobe
  commands.
\<close>

fun mem_write_of :: "event \<Rightarrow> (addr \<times> u8) list" where
  "mem_write_of (Mem_write a v) = [(a, v)]"
| "mem_write_of _ = []"

definition mem_writes :: "event list \<Rightarrow> (addr \<times> u8) list" where
  "mem_writes es = concat (map mem_write_of es)"

fun callback_call_of :: "event \<Rightarrow> (addr \<times> u8) list" where
  "callback_call_of (Rx_callback a n) = [(a, n)]"
| "callback_call_of _ = []"

definition callback_calls :: "event list \<Rightarrow> (addr \<times> u8) list" where
  "callback_calls es = concat (map callback_call_of es)"

fun fifo_write_of :: "event \<Rightarrow> u8 list list" where
  "fifo_write_of (Write_burst FIFO bs) = [bs]"
| "fifo_write_of _ = []"

definition fifo_writes :: "event list \<Rightarrow> u8 list list" where
  "fifo_writes es = concat (map fifo_write_of es)"

fun strobe_of :: "event \<Rightarrow> strobe_cmd list" where
  "strobe_of (Strobe c) = [c]"
| "strobe_of _ = []"

definition strobes :: "event list \<Rightarrow> strobe_cmd list" where
  "strobes es = concat (map strobe_of es)"

text \<open>The events a run from \<open>m\<close> to \<open>m'\<close> added to the trace.\<close>

definition events_since :: "machine \<Rightarrow> machine \<Rightarrow> event list" where
  "events_since m m' = drop (length (trace m)) (trace m')"

subsection \<open>A concrete board and machine\<close>

text \<open>
  A small configuration on which the theorems are instantiated: a receive FIFO
  that hands out the bytes of a list (and zeros after them), buffers of five
  bytes with the transmit buffer right behind the receive buffer, the signal pin
  on bit 6.
\<close>

definition fifo_of :: "u8 list \<Rightarrow> nat \<Rightarrow> u8" where
  "fifo_of bs i = (if i < length bs then bs ! i else 0)"

text \<open>RAM that holds the bytes of a list from \<open>base\<close> on, and zeros elsewhere.\<close>

definition ram_of :: "addr \<Rightarrow> u8 list \<Rightarrow> addr \<Rightarrow> u8" where
  "ram_of base bs a = (if base \<le> a \<and> a < base + length bs then bs ! (a - base) else 0)"

definition bench_board :: board where
  "bench_board =
     \<lparr>CC2500_BUFFER_LENGTH = 5, NUM_RXBYTES = 0x7F, GDO0_PIN = 0x40,
      p_rx_buffer = 0x200, p_tx_buffer = 0x205\<rparr>"

definition bench_machine :: "u8 list \<Rightarrow> u8 list \<Rightarrow> machine" where
  "bench_machine fifo pin =
     \<lparr>mem = (\<lambda>a. 0), GDO0_PxIE = 0x40, GDO0_PxIFG = 0x40, GDO0_PxIN = pin,
      chip_status = (\<lambda>r. of_nat (length fifo)), rx_fifo = fifo_of fifo, trace = []\<rparr>"

section \<open>Basic facts\<close>

declare poll_while.simps [simp del]

lemma log_simps [simp]:
  "mem (log e m) = mem m"
  "GDO0_PxIE (log e m) = GDO0_PxIE m"
  "GDO0_PxIFG (log e m) = GDO0_PxIFG m"
  "GDO0_PxIN (log e m) = GDO0_PxIN m"
  "chip_status (log e m) = chip_status m"
  "rx_fifo (log e m) = rx_fifo m"
  "trace (log e m) = trace m @ [e]"
  by (simp_all add: log_def)

lemma store_simps [simp]:
  "mem (store a v m) = (mem m)(a := v)"
  "GDO0_PxIE (store a v m) = GDO0_PxIE m"
  "GDO0_PxIFG (store a v m) = GDO0_PxIFG m"
  "GDO0_PxIN (store a v m) = GDO0_PxIN m"
  "chip_status (store a v m) = chip_status m"
  "rx_fifo (store a v m) = rx_fifo m"
  "trace (store a v m) = trace m @ [Mem_write a v]"
  by (simp_all add: store_def)

lemma store_bytes_frame [simp]:
  "GDO0_PxIE (store_bytes p bs m) = GDO0_PxIE m"
  "GDO0_PxIFG (store_bytes p bs m) = GDO0_PxIFG m"
  "GDO0_PxIN (store_bytes p bs m) = GDO0_PxIN m"
  "chip_status (store_bytes p bs m) = chip_status m"
  "rx_fifo (store_bytes p bs m) = rx_fifo m"
  by (induction bs arbitrary: p m; simp)+

lemma mem_store_bytes:
  "mem (store_bytes p bs m) a =
     (if p \<le> a \<and> a < p + length bs then bs ! (a - p) else mem m a)"
proof (induction bs arbitrary: p m)
  case Nil
  show ?case by auto
next
  case (Cons b bs)
  show ?case
    using Cons.IH [of "Suc p" "store p b m"] by (auto simp: nth_Cons')
qed

lemma trace_store_bytes:
  "trace (store_bytes p bs m) =
     trace m @ map (\<lambda>i. Mem_write (p + i) (bs ! i)) [0..<length bs]"
proof (induction bs arbitrary: p m)
  case Nil
  then show ?case by simp
next
  case (Cons b bs)
  have "map (\<lambda>i. Mem_write (p + i) ((b # bs) ! i)) [0..<length (b # bs)] =
        Mem_write p b # map (\<lambda>i. Mem_write (Suc p + i) (bs ! i)) [0..<length bs]"
    by (simp add: upt_conv_Cons map_Suc_upt [symmetric] del: upt_Suc)
  then show ?case by (simp add: Cons.IH)
qed

lemma upt_0_2: "[0..<2] = [0, Suc 0]"
  by (simp add: numeral_2_eq_2)

lemma mem_writes_simps [simp]:
  "mem_writes [] = []"
  "mem_writes (e # es) = mem_write_of e @ mem_writes es"
  "mem_writes (es @ fs) = mem_writes es @ mem_writes fs"
  by (simp_all add: mem_writes_def)

lemma mem_writes_map_Mem_write [simp]:
  "mem_writes (map (\<lambda>i. Mem_write (f i) (g i)) xs) = map (\<lambda>i. (f i, g i)) xs"
  by (induction xs) simp_all

lemma callback_calls_simps [simp]:
  "callback_calls [] = []"
  "callback_calls (e # es) = callback_call_of e @ callback_calls es"
  "callback_calls (es @ fs) = callback_calls es @ callback_calls fs"
  by (simp_all add: callback_calls_def)

lemma callback_calls_map_Mem_write [simp]:
  "callback_calls (map (\<lambda>i. Mem_write (f i) (g i)) xs) = []"
  by (induction xs) simp_all

lemma fifo_writes_simps [simp]:
  "fifo_writes [] = []"
  "fifo_writes (e # es) = fifo_write_of e @ fifo_writes es"
  "fifo_writes (es @ fs) = fifo_writes es @ fifo_writes fs"
  by (simp_all add: fifo_writes_def)

lemma fifo_writes_map_Mem_write [simp]:
  "fifo_writes (map (\<lambda>i. Mem_write (f i) (g i)) xs) = []"
  by (induction xs) simp_all

lemma fifo_writes_map_Read_PxIN [simp]:
  "fifo_writes (map Read_PxIN vs) = []"
  by (induction vs) simp_all

lemma mem_writes_map_Read_PxIN [simp]:
  "mem_writes (map Read_PxIN vs) = []"
  by (induction vs) simp_all

lemma strobes_simps [simp]:
  "strobes [] = []"
  "strobes (e # es) = strobe_of e @ strobes es"
  "strobes (es @ fs) = strobes es @ strobes fs"
  by (simp_all add: strobes_def)

lemma strobes_map_Mem_write [simp]:
  "strobes (map (\<lambda>i. Mem_write (f i) (g i)) xs) = []"
  by (induction xs) simp_all

lemma strobes_map_Read_PxIN [simp]:
  "strobes (map Read_PxIN vs) = []"
  by (induction vs) simp_all

lemma upt_0_add_2: "[0..<n + 2] = 0 # Suc 0 # map (\<lambda>i. i + 2) [0..<n]"
  by (induction n) (simp_all add: upt_0_2)

lemma length_load_bytes [simp]: "length (load_bytes p n m) = n"
  by (simp add: load_bytes_def)

lemma nth_load_bytes [simp]: "i < n \<Longrightarrow> load_bytes p n m ! i = mem m (p + i)"
  by (simp add: load_bytes_def)

section \<open>The receive path\<close>

text \<open>The three ways through \<open>receive_packet\<close>.\<close>

lemma receive_packet_idle:
  assumes "chip_status m RXBYTES AND NUM_RXBYTES h = 0"
  shows "receive_packet h p len m =
           (0, len, log (Read_status RXBYTES (chip_status m RXBYTES)) m)"
  using assms by (simp add: receive_packet_def read_status_def)

lemma receive_packet_oversized:
  assumes "chip_status m RXBYTES AND NUM_RXBYTES h \<noteq> 0" and "\<not> rx_fifo m 0 \<le> len"
  shows "receive_packet h p len m =
           (0, rx_fifo m 0,
            m\<lparr>rx_fifo := (\<lambda>i. rx_fifo m (i + 1)),
              trace := trace m @ [Read_status RXBYTES (chip_status m RXBYTES),
                                  Read_burst FIFO [rx_fifo m 0], Strobe SFRX]\<rparr>)"
  using assms
  by (simp add: receive_packet_def read_status_def read_burst_register_def strobe_def log_def
      Let_def)

lemma receive_packet_accepted:
  fixes h :: board and p :: addr and len :: u8 and m :: machine
  assumes "chip_status m RXBYTES AND NUM_RXBYTES h \<noteq> 0" and "rx_fifo m 0 \<le> len"
  defines "L \<equiv> unat (rx_fifo m 0)"
  defines "r \<equiv> receive_packet h p len m"
  shows "fst r = rx_fifo m (L + 2) AND CRC_OK"
    and "fst (snd r) = rx_fifo m 0"
    and "trace (snd (snd r)) =
           trace m @ [Read_status RXBYTES (chip_status m RXBYTES),
                      Read_burst FIFO [rx_fifo m 0],
                      Read_burst FIFO (map (\<lambda>i. rx_fifo m (i + 1)) [0..<L])]
                   @ map (\<lambda>i. Mem_write (p + i) (rx_fifo m (i + 1))) [0..<L]
                   @ [Read_burst FIFO [rx_fifo m (L + 1), rx_fifo m (L + 2)],
                      Mem_write (p + L) (rx_fifo m (L + 1)),
                      Mem_write (p + L + 1) (rx_fifo m (L + 2))]"
    and "mem (snd (snd r)) a =
           (if a = p + L + 1 then rx_fifo m (L + 2)
            else if a = p + L then rx_fifo m (L + 1)
            else if p \<le> a \<and> a < p + L then rx_fifo m (a - p + 1)
            else mem m a)"
    and "rx_fifo (snd (snd r)) = (\<lambda>i. rx_fifo m (i + (L + 3)))"
    and "GDO0_PxIE (snd (snd r)) = GDO0_PxIE m"
    and "GDO0_PxIFG (snd (snd r)) = GDO0_PxIFG m"
    and "GDO0_PxIN (snd (snd r)) = GDO0_PxIN m"
    and "chip_status (snd (snd r)) = chip_status m"
  using assms(1,2) unfolding r_def L_def
  by (auto simp: receive_packet_def read_status_def read_burst_register_def LQI_POS_def
      trace_store_bytes mem_store_bytes Let_def add.commute add.left_commute numeral_3_eq_3
      upt_0_2)

text \<open>The handler, by whether the flag of the radio's pin is set.\<close>

lemma port2_isr_GDO0:
  assumes "GDO0_PxIFG m AND GDO0_PIN h \<noteq> 0"
  shows "port2_isr h cb m =
           (let r = receive_packet h (p_rx_buffer h) (of_nat (CC2500_BUFFER_LENGTH h)) m;
                m1 = snd (snd r);
                m2 = (if fst r \<noteq> 0
                      then snd (cb (p_rx_buffer h) (fst (snd r))
                                  (log (Rx_callback (p_rx_buffer h) (fst (snd r))) m1))
                      else m1)
            in write_PxIFG (GDO0_PxIFG m2 AND NOT (GDO0_PIN h)) m2)"
  using assms by (simp add: port2_isr_def Let_def split_def)

lemma port2_isr_other:
  assumes "GDO0_PxIFG m AND GDO0_PIN h = 0"
  shows "port2_isr h cb m = write_PxIFG (GDO0_PxIFG m AND NOT (GDO0_PIN h)) m"
  using assms by (simp add: port2_isr_def Let_def)

lemma and_CRC_OK: "(w AND CRC_OK \<noteq> 0) = bit w 7" for w :: u8
proof -
  have "(w AND 2 ^ 7 = 0) = (\<not> bit w 7)"
    by (rule and_exp_eq_0_iff_not_bit)
  then show ?thesis by (simp add: CRC_OK_def)
qed

text \<open>
  C10.  When the status read of RXBYTES shows no byte pending (the masked byte
  count is zero), \<open>receive_packet\<close> returns 0 and hands back the caller's length
  unchanged.  The only thing it has done is the status read: no strobe, no FIFO
  read, no store; the receive FIFO and RAM are as before.
\<close>

theorem receive_packet_nothing_pending:
  assumes "chip_status m RXBYTES AND NUM_RXBYTES h = 0"
  shows "receive_packet h p len m =
           (0, len, m\<lparr>trace := trace m @ [Read_status RXBYTES (chip_status m RXBYTES)]\<rparr>)"
  using assms by (simp add: receive_packet_idle log_def)

theorem receive_packet_nothing_pending_witness:
  "chip_status (bench_machine [] []) RXBYTES AND NUM_RXBYTES bench_board = 0
   \<and> receive_packet bench_board 0x200 4 (bench_machine [] []) =
       (0, 4, (bench_machine [] [])\<lparr>trace := [Read_status RXBYTES 0]\<rparr>)"
  using receive_packet_nothing_pending [of "bench_machine [] []" bench_board "0x200" 4]
  by (simp add: bench_machine_def bench_board_def)

text \<open>
  C1.  A packet is pending and the length byte \<open>L\<close> the FIFO reports is greater
  than the maximum the caller passed.  Then \<open>receive_packet\<close> returns 0 and hands
  back \<open>L\<close> as the length; it has read the status and the length byte and issued
  one SFRX strobe, and nothing else: RAM is as before, no byte of the buffer is
  written.  When this happens inside \<open>port2_isr\<close> (the flag of the radio's pin is
  set, the maximum is \<open>CC2500_BUFFER_LENGTH\<close>), the handler goes on to clear the
  flag and returns: the result does not depend on the callback, and the trace
  holds no callback invocation.
\<close>

theorem receive_packet_oversized_flush:
  assumes "chip_status m RXBYTES AND NUM_RXBYTES h \<noteq> 0" and "len < rx_fifo m 0"
  shows "(let r = receive_packet h p len m; m' = snd (snd r)
          in fst r = 0
           \<and> fst (snd r) = rx_fifo m 0
           \<and> events_since m m' = [Read_status RXBYTES (chip_status m RXBYTES),
                                    Read_burst FIFO [rx_fifo m 0], Strobe SFRX]
           \<and> strobes (events_since m m') = [SFRX]
           \<and> mem_writes (events_since m m') = []
           \<and> mem m' = mem m)
         \<and> (GDO0_PxIFG m AND GDO0_PIN h \<noteq> 0 \<and> len = of_nat (CC2500_BUFFER_LENGTH h) \<longrightarrow>
              port2_isr h cb m =
                m\<lparr>GDO0_PxIFG := GDO0_PxIFG m AND NOT (GDO0_PIN h),
                  rx_fifo := (\<lambda>i. rx_fifo m (i + 1)),
                  trace := trace m @ [Read_status RXBYTES (chip_status m RXBYTES),
                                      Read_burst FIFO [rx_fifo m 0], Strobe SFRX,
                                      Write_PxIFG (GDO0_PxIFG m AND NOT (GDO0_PIN h))]\<rparr>
              \<and> callback_calls (events_since m (port2_isr h cb m)) = [])"
proof -
  have over: "\<not> rx_fifo m 0 \<le> len"
    using assms(2) by simp
  note rp = receive_packet_oversized [OF assms(1) over]
  have receive: "let r = receive_packet h p len m; m' = snd (snd r)
          in fst r = 0
           \<and> fst (snd r) = rx_fifo m 0
           \<and> events_since m m' = [Read_status RXBYTES (chip_status m RXBYTES),
                                    Read_burst FIFO [rx_fifo m 0], Strobe SFRX]
           \<and> strobes (events_since m m') = [SFRX]
           \<and> mem_writes (events_since m m') = []
           \<and> mem m' = mem m"
    by (simp add: rp Let_def events_since_def)
  have handler: "port2_isr h cb m =
          m\<lparr>GDO0_PxIFG := GDO0_PxIFG m AND NOT (GDO0_PIN h),
            rx_fifo := (\<lambda>i. rx_fifo m (i + 1)),
            trace := trace m @ [Read_status RXBYTES (chip_status m RXBYTES),
                                Read_burst FIFO [rx_fifo m 0], Strobe SFRX,
                                Write_PxIFG (GDO0_PxIFG m AND NOT (GDO0_PIN h))]\<rparr>"
    if "GDO0_PxIFG m AND GDO0_PIN h \<noteq> 0" and "len = of_nat (CC2500_BUFFER_LENGTH h)"
    using receive_packet_oversized [OF assms(1) over, of "p_rx_buffer h"] that
    by (simp add: port2_isr_GDO0 write_PxIFG_def log_def)
  have "callback_calls (events_since m (port2_isr h cb m)) = []"
    if "GDO0_PxIFG m AND GDO0_PIN h \<noteq> 0" and "len = of_nat (CC2500_BUFFER_LENGTH h)"
    by (simp add: handler [OF that] events_since_def)
  with receive handler show ?thesis
    by blast
qed

theorem receive_packet_oversized_flush_witness:
  "chip_status (bench_machine [20, 1, 2, 3] []) RXBYTES AND NUM_RXBYTES bench_board \<noteq> 0
   \<and> (5 :: u8) < rx_fifo (bench_machine [20, 1, 2, 3] []) 0
   \<and> GDO0_PxIFG (bench_machine [20, 1, 2, 3] []) AND GDO0_PIN bench_board \<noteq> 0
   \<and> (5 :: u8) = of_nat (CC2500_BUFFER_LENGTH bench_board)
   \<and> receive_packet bench_board 0x200 5 (bench_machine [20, 1, 2, 3] []) =
       (0, 20, (bench_machine [20, 1, 2, 3] [])
          \<lparr>rx_fifo := (\<lambda>i. fifo_of [20, 1, 2, 3] (i + 1)),
            trace := [Read_status RXBYTES 4, Read_burst FIFO [20], Strobe SFRX]\<rparr>)
   \<and> port2_isr bench_board dummy_callback (bench_machine [20, 1, 2, 3] []) =
       (bench_machine [20, 1, 2, 3] [])
          \<lparr>GDO0_PxIFG := 0,
            rx_fifo := (\<lambda>i. fifo_of [20, 1, 2, 3] (i + 1)),
            trace := [Read_status RXBYTES 4, Read_burst FIFO [20], Strobe SFRX,
                      Write_PxIFG 0]\<rparr>"
  using receive_packet_oversized_flush
    [of "bench_machine [20, 1, 2, 3] []" bench_board 5 "0x200" dummy_callback]
  by (simp add: bench_machine_def bench_board_def fifo_of_def receive_packet_def
      read_status_def read_burst_register_def strobe_def Let_def)

text \<open>
  C3.  For an accepted packet with length byte \<open>L\<close>, the stores \<open>receive_packet\<close>
  makes to RAM are exactly those to \<open>p_buffer[0]\<close>, ..., \<open>p_buffer[L + 1]\<close>, in
  this order: index \<open>i\<close> receives FIFO byte \<open>i + 1\<close>, which is a payload byte for
  \<open>i < L\<close> and a status byte for \<open>L\<close> and \<open>L + 1\<close>.  Afterwards RAM holds these
  bytes at these \<open>L + 2\<close> addresses and is as before at every other address.  In
  the handler, which passes \<open>p_rx_buffer\<close> and the maximum \<open>CC2500_BUFFER_LENGTH\<close>,
  a packet whose length byte equals \<open>CC2500_BUFFER_LENGTH\<close> is accepted and the two
  status bytes are stored at \<open>p_rx_buffer[CC2500_BUFFER_LENGTH]\<close> and
  \<open>p_rx_buffer[CC2500_BUFFER_LENGTH + 1]\<close>, behind the last element of the buffer:
  the stores are in the trace, and RAM holds the status bytes at these two
  addresses when the callback, if any, is entered.
\<close>

theorem receive_packet_writes:
  assumes "chip_status m RXBYTES AND NUM_RXBYTES h \<noteq> 0"
  shows "(rx_fifo m 0 \<le> len \<longrightarrow>
            (let m' = snd (snd (receive_packet h p len m)); L = unat (rx_fifo m 0)
             in mem_writes (events_since m m') =
                  map (\<lambda>i. (p + i, rx_fifo m (i + 1))) [0..<L + 2]
                \<and> load_bytes p (L + 2) m' = map (\<lambda>i. rx_fifo m (i + 1)) [0..<L + 2]
                \<and> (\<forall>a. mem m' a =
                       (if p \<le> a \<and> a < p + (L + 2) then rx_fifo m (a - p + 1) else mem m a))))
         \<and> (GDO0_PxIFG m AND GDO0_PIN h \<noteq> 0
              \<and> unat (rx_fifo m 0) = CC2500_BUFFER_LENGTH h \<longrightarrow>
            (let r = receive_packet h (p_rx_buffer h) (of_nat (CC2500_BUFFER_LENGTH h)) m;
                 m1 = snd (snd r);
                 m2 = (if fst r \<noteq> 0
                       then snd (cb (p_rx_buffer h) (fst (snd r))
                                   (log (Rx_callback (p_rx_buffer h) (fst (snd r))) m1))
                       else m1)
             in port2_isr h cb m = write_PxIFG (GDO0_PxIFG m2 AND NOT (GDO0_PIN h)) m2
                \<and> (p_rx_buffer h + CC2500_BUFFER_LENGTH h,
                      rx_fifo m (CC2500_BUFFER_LENGTH h + 1)) \<in> set (mem_writes (events_since m m1))
                \<and> (p_rx_buffer h + CC2500_BUFFER_LENGTH h + 1,
                      rx_fifo m (CC2500_BUFFER_LENGTH h + 2)) \<in> set (mem_writes (events_since m m1))
                \<and> mem m1 (p_rx_buffer h + CC2500_BUFFER_LENGTH h) =
                      rx_fifo m (CC2500_BUFFER_LENGTH h + 1)
                \<and> mem m1 (p_rx_buffer h + CC2500_BUFFER_LENGTH h + 1) =
                      rx_fifo m (CC2500_BUFFER_LENGTH h + 2)
                \<and> mem (log (Rx_callback (p_rx_buffer h) (fst (snd r))) m1) = mem m1))"
proof -
  have writes: "mem_writes (events_since m (snd (snd (receive_packet h q n m)))) =
           map (\<lambda>i. (q + i, rx_fifo m (i + 1))) [0..<unat (rx_fifo m 0) + 2]"
    if "rx_fifo m 0 \<le> n" for q n
    using assms that by (simp add: receive_packet_accepted(3) events_since_def)
  have ram: "mem (snd (snd (receive_packet h q n m))) a =
           (if q \<le> a \<and> a < q + (unat (rx_fifo m 0) + 2)
            then rx_fifo m (a - q + 1) else mem m a)"
    if "rx_fifo m 0 \<le> n" for q n a
    using receive_packet_accepted(4) [OF assms that, of q a] by auto
  have loaded: "load_bytes q (unat (rx_fifo m 0) + 2) (snd (snd (receive_packet h q n m))) =
           map (\<lambda>i. rx_fifo m (i + 1)) [0..<unat (rx_fifo m 0) + 2]"
    if "rx_fifo m 0 \<le> n" for q n
    unfolding load_bytes_def by (rule map_cong) (auto simp: ram [OF that])
  show ?thesis
  proof (intro conjI impI)
    assume "rx_fifo m 0 \<le> len"
    then show "let m' = snd (snd (receive_packet h p len m)); L = unat (rx_fifo m 0)
             in mem_writes (events_since m m') =
                  map (\<lambda>i. (p + i, rx_fifo m (i + 1))) [0..<L + 2]
                \<and> load_bytes p (L + 2) m' = map (\<lambda>i. rx_fifo m (i + 1)) [0..<L + 2]
                \<and> (\<forall>a. mem m' a =
                       (if p \<le> a \<and> a < p + (L + 2) then rx_fifo m (a - p + 1) else mem m a))"
      using writes [of len p] loaded [of len p] ram [of len p]
      by (simp only: Let_def) blast
  next
    assume isr: "GDO0_PxIFG m AND GDO0_PIN h \<noteq> 0
              \<and> unat (rx_fifo m 0) = CC2500_BUFFER_LENGTH h"
    let ?n = "CC2500_BUFFER_LENGTH h"
    let ?rx = "p_rx_buffer h"
    let ?m1 = "snd (snd (receive_packet h ?rx (of_nat ?n) m))"
    have "of_nat (unat (rx_fifo m 0)) = rx_fifo m 0"
      by simp
    with isr have fits: "rx_fifo m 0 \<le> of_nat ?n"
      by simp
    have L: "unat (rx_fifo m 0) = ?n"
      using isr by simp
    have "(?rx + ?n, rx_fifo m (?n + 1))
            \<in> (\<lambda>i. (?rx + i, rx_fifo m (i + 1))) ` {0..<?n + 2}"
      by (rule image_eqI [where x = "?n"]) simp_all
    moreover have "(?rx + ?n + 1, rx_fifo m (?n + 2))
            \<in> (\<lambda>i. (?rx + i, rx_fifo m (i + 1))) ` {0..<?n + 2}"
      by (rule image_eqI [where x = "?n + 1"]) simp_all
    moreover have "mem ?m1 (?rx + ?n) = rx_fifo m (?n + 1)"
      using ram [OF fits, of ?rx "?rx + ?n"] L by simp
    moreover have "mem ?m1 (?rx + ?n + 1) = rx_fifo m (?n + 2)"
      using ram [OF fits, of ?rx "?rx + ?n + 1"] L by simp
    ultimately show "let r = receive_packet h ?rx (of_nat ?n) m;
                 m1 = snd (snd r);
                 m2 = (if fst r \<noteq> 0
                       then snd (cb ?rx (fst (snd r))
                                   (log (Rx_callback ?rx (fst (snd r))) m1))
                       else m1)
             in port2_isr h cb m = write_PxIFG (GDO0_PxIFG m2 AND NOT (GDO0_PIN h)) m2
                \<and> (?rx + ?n, rx_fifo m (?n + 1)) \<in> set (mem_writes (events_since m m1))
                \<and> (?rx + ?n + 1, rx_fifo m (?n + 2)) \<in> set (mem_writes (events_since m m1))
                \<and> mem m1 (?rx + ?n) = rx_fifo m (?n + 1)
                \<and> mem m1 (?rx + ?n + 1) = rx_fifo m (?n + 2)
                \<and> mem (log (Rx_callback ?rx (fst (snd r))) m1) = mem m1"
      using writes [OF fits, of ?rx] isr port2_isr_GDO0 [of m h cb]
      by (simp add: Let_def)
  qed
qed

theorem receive_packet_writes_witness:
  "chip_status (bench_machine [5, 0xA, 0xB, 0xC, 0xD, 0xE, 0x30, 0x80] []) RXBYTES
     AND NUM_RXBYTES bench_board \<noteq> 0
   \<and> rx_fifo (bench_machine [5, 0xA, 0xB, 0xC, 0xD, 0xE, 0x30, 0x80] []) 0
       \<le> (of_nat (CC2500_BUFFER_LENGTH bench_board) :: u8)
   \<and> GDO0_PxIFG (bench_machine [5, 0xA, 0xB, 0xC, 0xD, 0xE, 0x30, 0x80] []) AND GDO0_PIN bench_board \<noteq> 0
   \<and> unat (rx_fifo (bench_machine [5, 0xA, 0xB, 0xC, 0xD, 0xE, 0x30, 0x80] []) 0)
       = CC2500_BUFFER_LENGTH bench_board
   \<and> mem_writes (trace (snd (snd (receive_packet bench_board (p_rx_buffer bench_board)
         (of_nat (CC2500_BUFFER_LENGTH bench_board))
         (bench_machine [5, 0xA, 0xB, 0xC, 0xD, 0xE, 0x30, 0x80] []))))) =
       [(0x200, 0xA), (0x201, 0xB), (0x202, 0xC), (0x203, 0xD), (0x204, 0xE),
        (0x205, 0x30), (0x206, 0x80)]
   \<and> load_bytes 0x200 8 (snd (snd (receive_packet bench_board (p_rx_buffer bench_board)
         (of_nat (CC2500_BUFFER_LENGTH bench_board))
         (bench_machine [5, 0xA, 0xB, 0xC, 0xD, 0xE, 0x30, 0x80] [])))) =
       [0xA, 0xB, 0xC, 0xD, 0xE, 0x30, 0x80, 0]
   \<and> mem_writes (trace (port2_isr bench_board dummy_callback
         (bench_machine [5, 0xA, 0xB, 0xC, 0xD, 0xE, 0x30, 0x80] []))) =
       [(0x200, 0xA), (0x201, 0xB), (0x202, 0xC), (0x203, 0xD), (0x204, 0xE),
        (0x205, 0x30), (0x206, 0x80)]
   \<and> load_bytes 0x200 8 (port2_isr bench_board dummy_callback
         (bench_machine [5, 0xA, 0xB, 0xC, 0xD, 0xE, 0x30, 0x80] [])) =
       [0xA, 0xB, 0xC, 0xD, 0xE, 0x30, 0x80, 0]"
  using receive_packet_writes
      [of "bench_machine [5, 0xA, 0xB, 0xC, 0xD, 0xE, 0x30, 0x80] []" bench_board
          "of_nat (CC2500_BUFFER_LENGTH bench_board)" "p_rx_buffer bench_board" dummy_callback]
  by (simp add: bench_machine_def bench_board_def fifo_of_def events_since_def
      upt_conv_Cons Let_def dummy_callback_def write_PxIFG_def load_bytes_def)

text \<open>
  C4.  For an accepted packet (one is pending and its length byte \<open>L\<close> is at most
  the caller's maximum) the return value of \<open>receive_packet\<close> is nonzero exactly
  when bit 7 of the second status byte is set.  The FIFO hands out the length
  byte, \<open>L\<close> payload bytes and the two status bytes, so the second status byte is
  FIFO byte \<open>L + 2\<close>; no payload byte takes part.
\<close>

theorem receive_packet_crc_gate:
  assumes "chip_status m RXBYTES AND NUM_RXBYTES h \<noteq> 0" and "rx_fifo m 0 \<le> len"
  shows "(fst (receive_packet h p len m) \<noteq> 0) = bit (rx_fifo m (unat (rx_fifo m 0) + 2)) 7"
  using assms by (simp add: receive_packet_accepted(1) and_CRC_OK)

theorem receive_packet_crc_gate_witness:
  "chip_status (bench_machine [2, 0xAA, 0xBB, 0x30, 0x80] []) RXBYTES AND NUM_RXBYTES bench_board \<noteq> 0
   \<and> rx_fifo (bench_machine [2, 0xAA, 0xBB, 0x30, 0x80] []) 0 \<le> (4 :: u8)
   \<and> fst (receive_packet bench_board 0x200 4 (bench_machine [2, 0xAA, 0xBB, 0x30, 0x80] [])) \<noteq> 0
   \<and> bit (0x80 :: u8) 7
   \<and> chip_status (bench_machine [2, 0xAA, 0xBB, 0x30, 0x7F] []) RXBYTES AND NUM_RXBYTES bench_board \<noteq> 0
   \<and> rx_fifo (bench_machine [2, 0xAA, 0xBB, 0x30, 0x7F] []) 0 \<le> (4 :: u8)
   \<and> fst (receive_packet bench_board 0x200 4 (bench_machine [2, 0xAA, 0xBB, 0x30, 0x7F] [])) = 0
   \<and> \<not> bit (0x7F :: u8) 7"
  using receive_packet_crc_gate
    [of "bench_machine [2, 0xAA, 0xBB, 0x30, 0x80] []" bench_board 4 "0x200"]
    receive_packet_crc_gate
    [of "bench_machine [2, 0xAA, 0xBB, 0x30, 0x7F] []" bench_board 4 "0x200"]
  by (simp add: bench_machine_def bench_board_def fifo_of_def)

text \<open>
  C5.  The handler runs with the flag of the radio's pin set.  If a packet is
  pending, its length byte \<open>L\<close> is at most \<open>CC2500_BUFFER_LENGTH\<close> and bit 7 of the
  second status byte is set, the handler is: receive the packet, invoke the
  callback once on the receive buffer and \<open>L\<close>, clear the flag.  In every other
  case (nothing pending, oversized, CRC bit 0) it is: receive, clear the flag;
  the callback does not occur in the result and the handler's stretch of the trace
  holds no invocation.
\<close>

theorem port2_isr_callback:
  assumes "GDO0_PxIFG m AND GDO0_PIN h \<noteq> 0"
  shows "(let m1 = snd (snd (receive_packet h (p_rx_buffer h)
                               (of_nat (CC2500_BUFFER_LENGTH h)) m));
              L = rx_fifo m 0;
              m2 = log (Rx_callback (p_rx_buffer h) L) m1;
              m3 = snd (cb (p_rx_buffer h) L m2)
          in if chip_status m RXBYTES AND NUM_RXBYTES h \<noteq> 0
                \<and> L \<le> of_nat (CC2500_BUFFER_LENGTH h)
                \<and> bit (rx_fifo m (unat L + 2)) 7
             then port2_isr h cb m = write_PxIFG (GDO0_PxIFG m3 AND NOT (GDO0_PIN h)) m3
                  \<and> callback_calls (events_since m m2) = [(p_rx_buffer h, L)]
             else port2_isr h cb m = write_PxIFG (GDO0_PxIFG m1 AND NOT (GDO0_PIN h)) m1
                  \<and> callback_calls (events_since m (port2_isr h cb m)) = [])"
proof -
  let ?r = "receive_packet h (p_rx_buffer h) (of_nat (CC2500_BUFFER_LENGTH h)) m"
  let ?pending = "chip_status m RXBYTES AND NUM_RXBYTES h \<noteq> 0"
  let ?fits = "rx_fifo m 0 \<le> of_nat (CC2500_BUFFER_LENGTH h)"
  consider (idle) "\<not> ?pending" | (over) "?pending" "\<not> ?fits" | (acc) "?pending" "?fits"
    by blast
  then show ?thesis
  proof cases
    case idle
    then show ?thesis
      using assms
      by (simp add: port2_isr_GDO0 receive_packet_idle Let_def write_PxIFG_def events_since_def)
  next
    case over
    then show ?thesis
      using assms
      by (simp add: port2_isr_GDO0 receive_packet_oversized Let_def write_PxIFG_def
          events_since_def)
  next
    case acc
    note rp = receive_packet_accepted [OF acc, of "p_rx_buffer h"]
    show ?thesis
      using assms acc
      by (simp add: port2_isr_GDO0 rp(1,2,3) and_CRC_OK Let_def write_PxIFG_def
          events_since_def)
  qed
qed

theorem port2_isr_callback_witness:
  "GDO0_PxIFG (bench_machine [2, 0xAA, 0xBB, 0x30, 0x80] []) AND GDO0_PIN bench_board \<noteq> 0
   \<and> callback_calls (trace (port2_isr bench_board dummy_callback
         (bench_machine [2, 0xAA, 0xBB, 0x30, 0x80] []))) = [(0x200, 2)]
   \<and> GDO0_PxIFG (bench_machine [2, 0xAA, 0xBB, 0x30, 0x7F] []) AND GDO0_PIN bench_board \<noteq> 0
   \<and> callback_calls (trace (port2_isr bench_board dummy_callback
         (bench_machine [2, 0xAA, 0xBB, 0x30, 0x7F] []))) = []"
  using port2_isr_callback
      [of "bench_machine [2, 0xAA, 0xBB, 0x30, 0x80] []" bench_board dummy_callback]
    port2_isr_callback
      [of "bench_machine [2, 0xAA, 0xBB, 0x30, 0x7F] []" bench_board dummy_callback]
  by (simp add: bench_machine_def bench_board_def fifo_of_def dummy_callback_def Let_def
      events_since_def write_PxIFG_def receive_packet_def read_status_def
      read_burst_register_def upt_0_2 LQI_POS_def CRC_OK_def)

text \<open>
  C9.  Whatever the machine, the board constants and the callback: when
  \<open>port2_isr\<close> returns, the bit of the radio's pin in the interrupt flag register
  is 0, and the last thing the handler did is the write to that register that
  cleared it.
\<close>

theorem port2_isr_clears_flag:
  "GDO0_PxIFG (port2_isr h cb m) AND GDO0_PIN h = 0
   \<and> (\<exists>v. last (trace (port2_isr h cb m)) = Write_PxIFG v \<and> v AND GDO0_PIN h = 0)"
  by (simp add: port2_isr_def Let_def write_PxIFG_def and.assoc)

theorem port2_isr_clears_flag_witness:
  "GDO0_PxIFG (port2_isr bench_board dummy_callback
      (bench_machine [2, 0xAA, 0xBB, 0x30, 0x80] [])) AND GDO0_PIN bench_board = 0
   \<and> GDO0_PxIFG (port2_isr bench_board dummy_callback
      ((bench_machine [] [])\<lparr>GDO0_PxIFG := 0x01\<rparr>)) AND GDO0_PIN bench_board = 0"
  using port2_isr_clears_flag
      [of bench_board dummy_callback "bench_machine [2, 0xAA, 0xBB, 0x30, 0x80] []"]
    port2_isr_clears_flag
      [of bench_board dummy_callback "(bench_machine [] [])\<lparr>GDO0_PxIFG := 0x01\<rparr>"]
  by simp

section \<open>The transmit path\<close>

lemma poll_while_Nil:
  "GDO0_PxIN m = [] \<Longrightarrow> poll_while c m = Spins m"
  by (simp add: poll_while.simps)

lemma poll_while_Cons:
  "GDO0_PxIN m = v # vs \<Longrightarrow>
   poll_while c m =
     (if c v then poll_while c (log (Read_PxIN v) (m\<lparr>GDO0_PxIN := vs\<rparr>))
      else Returns (log (Read_PxIN v) (m\<lparr>GDO0_PxIN := vs\<rparr>)))"
  by (subst poll_while.simps) simp


lemma poll_while_spins:
  "\<forall>x\<in>set (GDO0_PxIN m). c x \<Longrightarrow>
   poll_while c m =
     Spins (m\<lparr>GDO0_PxIN := [], trace := trace m @ map Read_PxIN (GDO0_PxIN m)\<rparr>)"
proof (induction "GDO0_PxIN m" arbitrary: m)
  case Nil
  then show ?case by (simp add: poll_while_Nil)
next
  case (Cons x xs)
  let ?m = "log (Read_PxIN x) (m\<lparr>GDO0_PxIN := xs\<rparr>)"
  have eq: "GDO0_PxIN m = x # xs" using Cons.hyps(2) by simp
  have "poll_while c m = poll_while c ?m"
    using Cons.prems eq by (simp add: poll_while_Cons)
  also have "\<dots> = Spins (?m\<lparr>GDO0_PxIN := [], trace := trace ?m @ map Read_PxIN (GDO0_PxIN ?m)\<rparr>)"
    using Cons.prems eq by (intro Cons.hyps(1)) simp_all
  finally show ?case using eq by (simp add: log_def)
qed

text \<open>Whether it returns or not, the loop only reads the port.\<close>

lemma poll_while_effect:
  "\<exists>k. machine_of (poll_while c m) =
         m\<lparr>GDO0_PxIN := drop k (GDO0_PxIN m),
           trace := trace m @ map Read_PxIN (take k (GDO0_PxIN m))\<rparr>"
proof (induction c m rule: poll_while.induct)
  case (1 c m)
  show ?case
  proof (cases "GDO0_PxIN m")
    case Nil
    then have "machine_of (poll_while c m) =
         m\<lparr>GDO0_PxIN := drop 0 (GDO0_PxIN m),
           trace := trace m @ map Read_PxIN (take 0 (GDO0_PxIN m))\<rparr>"
      by (simp add: poll_while_Nil)
    then show ?thesis by blast
  next
    case (Cons v vs)
    let ?m = "log (Read_PxIN v) (m\<lparr>GDO0_PxIN := vs\<rparr>)"
    show ?thesis
    proof (cases "c v")
      case True
      from "1.IH" [OF Cons refl True] obtain k where
        k: "machine_of (poll_while c ?m) =
              ?m\<lparr>GDO0_PxIN := drop k (GDO0_PxIN ?m),
                trace := trace ?m @ map Read_PxIN (take k (GDO0_PxIN ?m))\<rparr>"
        by blast
      have "machine_of (poll_while c m) =
         m\<lparr>GDO0_PxIN := drop (Suc k) (GDO0_PxIN m),
           trace := trace m @ map Read_PxIN (take (Suc k) (GDO0_PxIN m))\<rparr>"
        using Cons True k by (simp add: poll_while_Cons log_def)
      then show ?thesis by blast
    next
      case False
      have "machine_of (poll_while c m) =
         m\<lparr>GDO0_PxIN := drop (Suc 0) (GDO0_PxIN m),
           trace := trace m @ map Read_PxIN (take (Suc 0) (GDO0_PxIN m))\<rparr>"
        using Cons False by (simp add: poll_while_Cons log_def)
      then show ?thesis by blast
    qed
  qed
qed

text \<open>
  What every run of \<open>cc2500_tx\<close> has done, returned or not: RAM is as before, the
  bytes at \<open>p_buffer\<close> went to the FIFO in one burst write, STX was strobed, and
  nothing was stored.
\<close>

lemma cc2500_tx_effect:
  "\<exists>es. trace (machine_of (cc2500_tx h p len m)) = trace m @ es
        \<and> fifo_writes es = [load_bytes p (unat len) m]
        \<and> strobes es = [STX]
        \<and> mem_writes es = []
        \<and> mem (machine_of (cc2500_tx h p len m)) = mem m"
proof -
  let ?m3 = "strobe STX (write_burst_register FIFO
       (load_bytes p (unat len) (write_PxIE (GDO0_PxIE m AND NOT (GDO0_PIN h)) m))
       (write_PxIE (GDO0_PxIE m AND NOT (GDO0_PIN h)) m))"
  let ?lo = "\<lambda>v. v AND GDO0_PIN h = 0"
  let ?hi = "\<lambda>v. v AND GDO0_PIN h \<noteq> 0"
  let ?P = "\<lambda>m'. \<exists>es. trace m' = trace m @ es
        \<and> fifo_writes es = [load_bytes p (unat len) m]
        \<and> strobes es = [STX]
        \<and> mem_writes es = [] \<and> mem m' = mem m"
  have m3: "mem ?m3 = mem m"
    "trace ?m3 = trace m @ [Write_PxIE (GDO0_PxIE m AND NOT (GDO0_PIN h)),
        Write_burst FIFO (load_bytes p (unat len) m), Strobe STX]"
    by (simp_all add: strobe_def write_burst_register_def write_PxIE_def load_bytes_def)
  obtain k where k: "machine_of (poll_while ?lo ?m3) =
         ?m3\<lparr>GDO0_PxIN := drop k (GDO0_PxIN ?m3),
           trace := trace ?m3 @ map Read_PxIN (take k (GDO0_PxIN ?m3))\<rparr>"
    using poll_while_effect by blast
  have P4: "?P (machine_of (poll_while ?lo ?m3))"
    using k m3 by simp
  show ?thesis
  proof (cases "poll_while ?lo ?m3")
    case (Spins m4)
    then have "machine_of (cc2500_tx h p len m) = machine_of (poll_while ?lo ?m3)"
      by (simp add: cc2500_tx_def Let_def)
    with P4 show ?thesis by simp
  next
    case (Returns m4)
    then have m4: "machine_of (poll_while ?lo ?m3) = m4"
      by simp
    obtain j where j: "machine_of (poll_while ?hi m4) =
         m4\<lparr>GDO0_PxIN := drop j (GDO0_PxIN m4),
           trace := trace m4 @ map Read_PxIN (take j (GDO0_PxIN m4))\<rparr>"
      using poll_while_effect by blast
    from P4 m4 obtain es where es: "trace m4 = trace m @ es"
      "fifo_writes es = [load_bytes p (unat len) m]" "mem_writes es = []" "mem m4 = mem m"
      "strobes es = [STX]"
      by auto
    let ?es5 = "es @ map Read_PxIN (take j (GDO0_PxIN m4))"
    have P5: "trace (machine_of (poll_while ?hi m4)) = trace m @ ?es5"
      "fifo_writes ?es5 = [load_bytes p (unat len) m]" "mem_writes ?es5 = []"
      "mem (machine_of (poll_while ?hi m4)) = mem m"
      "strobes ?es5 = [STX]"
      using j es by simp_all
    show ?thesis
    proof (cases "poll_while ?hi m4")
      case (Spins m5)
      then have "machine_of (cc2500_tx h p len m) = machine_of (poll_while ?hi m4)"
        using Returns by (simp add: cc2500_tx_def Let_def)
      with P5 show ?thesis by metis
    next
      case inner: (Returns m5)
      let ?v = "GDO0_PxIFG m5 AND NOT (GDO0_PIN h)"
      let ?w = "GDO0_PxIE m5 OR GDO0_PIN h"
      have "machine_of (cc2500_tx h p len m) = write_PxIE ?w (write_PxIFG ?v m5)"
        using Returns inner by (simp add: cc2500_tx_def Let_def write_PxIFG_def)
      moreover have "m5 = machine_of (poll_while ?hi m4)"
        using inner by simp
      ultimately have
        "trace (machine_of (cc2500_tx h p len m)) = trace m @ (?es5 @ [Write_PxIFG ?v, Write_PxIE ?w])"
        "mem (machine_of (cc2500_tx h p len m)) = mem m"
        using P5(1,4) by (simp_all add: write_PxIE_def write_PxIFG_def)
      moreover have "fifo_writes (?es5 @ [Write_PxIFG ?v, Write_PxIE ?w]) = [load_bytes p (unat len) m]"
        "mem_writes (?es5 @ [Write_PxIFG ?v, Write_PxIE ?w]) = []"
        "strobes (?es5 @ [Write_PxIFG ?v, Write_PxIE ?w]) = [STX]"
        using P5(2,3,5) by simp_all
      ultimately show ?thesis by blast
    qed
  qed
qed

text \<open>While a run of \<open>cc2500_tx\<close> waits without end, the pin's interrupt stays masked.\<close>

lemma cc2500_tx_spins_masked:
  assumes "cc2500_tx h p len m = Spins m'"
  shows "GDO0_PxIE m' = GDO0_PxIE m AND NOT (GDO0_PIN h)"
proof -
  let ?m3 = "strobe STX (write_burst_register FIFO
       (load_bytes p (unat len) (write_PxIE (GDO0_PxIE m AND NOT (GDO0_PIN h)) m))
       (write_PxIE (GDO0_PxIE m AND NOT (GDO0_PIN h)) m))"
  let ?lo = "\<lambda>v. v AND GDO0_PIN h = 0"
  let ?hi = "\<lambda>v. v AND GDO0_PIN h \<noteq> 0"
  have ie3: "GDO0_PxIE ?m3 = GDO0_PxIE m AND NOT (GDO0_PIN h)"
    by (simp add: strobe_def write_burst_register_def write_PxIE_def)
  have keep: "GDO0_PxIE (machine_of (poll_while c x)) = GDO0_PxIE x" for c x
    using poll_while_effect [of c x] by auto
  show ?thesis
  proof (cases "poll_while ?lo ?m3")
    case (Spins m4)
    then have "m' = machine_of (poll_while ?lo ?m3)"
      using assms by (simp add: cc2500_tx_def Let_def)
    then show ?thesis using keep [of ?lo ?m3] ie3 by simp
  next
    case (Returns m4)
    then have m4: "GDO0_PxIE m4 = GDO0_PxIE m AND NOT (GDO0_PIN h)"
      using keep [of ?lo ?m3] ie3 by simp
    show ?thesis
    proof (cases "poll_while ?hi m4")
      case (Spins m5)
      then have "m' = machine_of (poll_while ?hi m4)"
        using assms Returns by (simp add: cc2500_tx_def Let_def)
      then show ?thesis using keep [of ?hi m4] m4 by simp
    next
      case inner: (Returns m5)
      then show ?thesis
        using assms Returns by (simp add: cc2500_tx_def Let_def)
    qed
  qed
qed



text \<open>
  The frame \<open>cc2500_tx_packet\<close> builds and sends, for a payload that fits and
  lies outside the part of the transmit buffer the frame takes.
\<close>

lemma cc2500_tx_packet_effect:
  fixes h :: board and p :: addr and len dest :: u8 and m :: machine
  defines "frame \<equiv> (len + 1) # dest # load_bytes p (unat len) m"
  defines "m' \<equiv> machine_of (cc2500_tx_packet h p len dest m)"
  assumes fits: "unat len + 2 \<le> CC2500_BUFFER_LENGTH h" and cap: "CC2500_BUFFER_LENGTH h \<le> 255"
    and apart: "p + unat len \<le> p_tx_buffer h \<or> p_tx_buffer h + (unat len + 2) \<le> p"
  shows "unat (len + 1) = unat len + 1"
    and "load_bytes (p_tx_buffer h) (unat len + 2) m' = frame"
    and "\<exists>es. trace m' = trace m @ es
            \<and> mem_writes es = map (\<lambda>i. (p_tx_buffer h + i, frame ! i)) [0..<unat len + 2]
            \<and> fifo_writes es = [frame]
            \<and> strobes es = [STX]"
proof -
  let ?tx = "p_tx_buffer h"
  let ?n = "unat len"
  let ?m2 = "store (Suc ?tx) dest (store ?tx (len + 1) m)"
  let ?pl = "load_bytes p ?n m"
  let ?m3 = "store_bytes (Suc (Suc ?tx)) ?pl ?m2"
  have small: "?n \<le> 253"
    using fits cap by simp
  show len1: "unat (len + 1) = ?n + 1"
    using small by (simp add: unat_word_ariths)
  have len2: "unat (len + 2) = ?n + 2"
    using small by (simp add: unat_word_ariths)
  have pl2: "load_bytes p ?n ?m2 = ?pl"
    using apart by (auto simp: load_bytes_def)
  have packet: "cc2500_tx_packet h p len dest m = cc2500_tx h ?tx (len + 2) ?m3"
    by (simp add: cc2500_tx_packet_def Let_def LENGTH_FIELD_def ADDRESS_FIELD_def
        memcpy_def DATA_FIELD_def pl2)
  have mem3: "mem ?m3 (?tx + i) = frame ! i" if "i < ?n + 2" for i
  proof -
    have "i = 0 \<or> i = Suc 0 \<or> (\<exists>j. i = Suc (Suc j) \<and> j < ?n)"
      using that by presburger
    then consider "i = 0" | "i = Suc 0" | j where "i = Suc (Suc j)" "j < ?n"
      by blast
    then show ?thesis
      by cases (simp_all add: mem_store_bytes frame_def)
  qed
  have load3: "load_bytes ?tx (?n + 2) ?m3 = frame"
    by (rule nth_equalityI) (simp_all add: frame_def mem3 [unfolded frame_def])
  have stores: "trace ?m3 = trace m
      @ (Mem_write ?tx (len + 1) # Mem_write (Suc ?tx) dest
         # map (\<lambda>i. Mem_write (Suc (Suc ?tx) + i) (?pl ! i)) [0..<?n])"
    by (simp add: trace_store_bytes)
  have "map (\<lambda>i. Mem_write (?tx + i) (frame ! i)) [0..<?n + 2] =
      Mem_write ?tx (len + 1) # Mem_write (Suc ?tx) dest
      # map (\<lambda>i. Mem_write (Suc (Suc ?tx) + i) (?pl ! i)) [0..<?n]"
    unfolding upt_0_add_2 by (simp add: frame_def comp_def)
  with stores have trace3: "trace ?m3 = trace m
      @ map (\<lambda>i. Mem_write (?tx + i) (frame ! i)) [0..<?n + 2]"
    by (simp only:)
  obtain es where es: "trace m' = trace ?m3 @ es"
    "fifo_writes es = [load_bytes ?tx (unat (len + 2)) ?m3]" "mem_writes es = []"
    "mem m' = mem ?m3" "strobes es = [STX]"
    using cc2500_tx_effect [of h ?tx "len + 2" ?m3] unfolding m'_def packet by blast
  show "load_bytes ?tx (?n + 2) m' = frame"
    using load3 es(4) by (simp add: load_bytes_def)
  let ?es = "map (\<lambda>i. Mem_write (?tx + i) (frame ! i)) [0..<?n + 2] @ es"
  have "trace m' = trace m @ ?es"
    using es(1) trace3 by simp
  moreover have "mem_writes ?es = map (\<lambda>i. (?tx + i, frame ! i)) [0..<?n + 2]"
    using es(3) by simp
  moreover have "fifo_writes ?es = [frame]"
    using es(2) load3 len2 by simp
  moreover have "strobes ?es = [STX]"
    using es(5) by simp
  ultimately show "\<exists>es. trace m' = trace m @ es
            \<and> mem_writes es = map (\<lambda>i. (?tx + i, frame ! i)) [0..<?n + 2]
            \<and> fifo_writes es = [frame]
            \<and> strobes es = [STX]"
    by blast
qed

text \<open>
  C6.  The payload of \<open>length\<close> bytes at \<open>p_buffer\<close> fits
  (\<open>length + 2 \<le> CC2500_BUFFER_LENGTH\<close>, a capacity that fits the \<open>uint8_t\<close> the
  handler keeps it in) and lies outside the frame's part of the driver's own
  transmit buffer.  Then, whether the transmit handshake completes or not,
  \<open>cc2500_tx_packet\<close> has stored \<open>length + 1\<close> (without wrap-around) in byte 0 of
  the transmit buffer, the destination in byte 1 and the payload from byte 2 on,
  these \<open>length + 2\<close> stores being all its stores, and has burst-written exactly
  one byte string to the FIFO, the frame of \<open>length + 2\<close> bytes, and has issued
  the STX strobe.  The instance
  below is the payload 1, 2, 3 for destination 5, with the frame 4, 5, 1, 2, 3.
\<close>

theorem cc2500_tx_packet_frame:
  assumes "unat len + 2 \<le> CC2500_BUFFER_LENGTH h" and "CC2500_BUFFER_LENGTH h \<le> 255"
    and "p + unat len \<le> p_tx_buffer h \<or> p_tx_buffer h + (unat len + 2) \<le> p"
  shows "(let m' = machine_of (cc2500_tx_packet h p len dest m);
              frame = (len + 1) # dest # load_bytes p (unat len) m
          in unat (len + 1) = unat len + 1
           \<and> load_bytes (p_tx_buffer h) (unat len + 2) m' = frame
           \<and> mem_writes (events_since m m') =
               map (\<lambda>i. (p_tx_buffer h + i, frame ! i)) [0..<unat len + 2]
           \<and> fifo_writes (events_since m m') = [frame]
           \<and> strobes (events_since m m') = [STX])"
proof -
  note eff = cc2500_tx_packet_effect(1) [OF assms]
    cc2500_tx_packet_effect(2) [OF assms, where dest = dest and m = m]
    cc2500_tx_packet_effect(3) [OF assms, where dest = dest and m = m]
  from eff(3) obtain es where
    "trace (machine_of (cc2500_tx_packet h p len dest m)) = trace m @ es"
    "mem_writes es = map (\<lambda>i. (p_tx_buffer h + i, ((len + 1) # dest # load_bytes p (unat len) m) ! i))
        [0..<unat len + 2]"
    "fifo_writes es = [(len + 1) # dest # load_bytes p (unat len) m]"
    "strobes es = [STX]"
    by blast
  then show ?thesis
    using eff(1,2) by (simp add: Let_def events_since_def)
qed

theorem cc2500_tx_packet_frame_witness:
  "unat (3 :: u8) + 2 \<le> CC2500_BUFFER_LENGTH bench_board
   \<and> CC2500_BUFFER_LENGTH bench_board \<le> 255
   \<and> p_tx_buffer bench_board + (unat (3 :: u8) + 2) \<le> 0x300
   \<and> load_bytes 0x300 3
         ((bench_machine [] [0, 0x40, 0])\<lparr>mem := ram_of 0x300 [1, 2, 3]\<rparr>) = [1, 2, 3]
   \<and> load_bytes (p_tx_buffer bench_board) 5
        (machine_of (cc2500_tx_packet bench_board 0x300 3 5
           ((bench_machine [] [0, 0x40, 0])\<lparr>mem := ram_of 0x300 [1, 2, 3]\<rparr>)))
       = [4, 5, 1, 2, 3]
   \<and> fifo_writes
        (events_since ((bench_machine [] [0, 0x40, 0])\<lparr>mem := ram_of 0x300 [1, 2, 3]\<rparr>)
          (machine_of (cc2500_tx_packet bench_board 0x300 3 5
             ((bench_machine [] [0, 0x40, 0])\<lparr>mem := ram_of 0x300 [1, 2, 3]\<rparr>))))
       = [[4, 5, 1, 2, 3]]"
  using cc2500_tx_packet_frame
    [of 3 bench_board "0x300" 5
        "(bench_machine [] [0, 0x40, 0])\<lparr>mem := ram_of 0x300 [1, 2, 3]\<rparr>"]
  by (simp add: bench_machine_def bench_board_def ram_of_def load_bytes_def upt_conv_Cons
      Let_def)

text \<open>
  C7.  Under the conditions of C6, take a frame that \<open>cc2500_tx_packet\<close> wrote to
  the FIFO, and a receiver with a packet pending whose receive FIFO hands out the
  bytes of this frame, then a first status byte, then a second status byte with
  bit 7 set.  The receive path as the handler calls it (\<open>p_rx_buffer\<close>, maximum
  \<open>CC2500_BUFFER_LENGTH\<close>) returns success with length \<open>length + 1\<close>; the
  destination is byte 0 of the receive buffer and the payload bytes follow it,
  equal to the bytes the sender passed.
\<close>

theorem frame_roundtrip:
  assumes "unat len + 2 \<le> CC2500_BUFFER_LENGTH h" and "CC2500_BUFFER_LENGTH h \<le> 255"
    and "p + unat len \<le> p_tx_buffer h \<or> p_tx_buffer h + (unat len + 2) \<le> p"
    and sent: "frame \<in> set (fifo_writes (events_since mt
                 (machine_of (cc2500_tx_packet h p len dest mt))))"
    and pending: "chip_status mr RXBYTES AND NUM_RXBYTES h \<noteq> 0"
    and fifo: "\<forall>i<length frame. rx_fifo mr i = frame ! i"
    and crc: "bit (rx_fifo mr (length frame + 1)) 7"
  shows "(let r = receive_packet h (p_rx_buffer h) (of_nat (CC2500_BUFFER_LENGTH h)) mr
          in fst r \<noteq> 0
           \<and> unat (fst (snd r)) = unat len + 1
           \<and> mem (snd (snd r)) (p_rx_buffer h) = dest
           \<and> load_bytes (p_rx_buffer h + 1) (unat len) (snd (snd r)) =
               load_bytes p (unat len) mt)"
proof -
  let ?n = "unat len"
  let ?rx = "p_rx_buffer h"
  let ?pl = "load_bytes p ?n mt"
  let ?r = "receive_packet h ?rx (of_nat (CC2500_BUFFER_LENGTH h)) mr"
  note eff = cc2500_tx_packet_effect(1) [OF assms(1-3)]
    cc2500_tx_packet_effect(3) [OF assms(1-3), where dest = dest and m = mt]
  from eff(2) sent have frame: "frame = (len + 1) # dest # ?pl"
    by (auto simp: events_since_def)
  then have len_frame: "length frame = ?n + 2"
    by simp
  have byte: "rx_fifo mr i = frame ! i" if "i < ?n + 2" for i
    using fifo that len_frame by simp
  have L: "rx_fifo mr 0 = len + 1"
    using byte [of 0] frame by simp
  have unat_L: "unat (rx_fifo mr 0) = ?n + 1"
    using L eff(1) by simp
  have "unat (of_nat (CC2500_BUFFER_LENGTH h) :: u8) = CC2500_BUFFER_LENGTH h"
    using assms(2) by (simp add: unat_of_nat)
  then have fits: "rx_fifo mr 0 \<le> of_nat (CC2500_BUFFER_LENGTH h)"
    using unat_L assms(1) by (simp add: word_le_nat_alt)
  note rp = receive_packet_accepted [OF pending fits, of ?rx]
  have ok: "fst ?r \<noteq> 0"
    using rp(1) crc len_frame unat_L by (simp add: and_CRC_OK)
  have n: "unat (fst (snd ?r)) = ?n + 1"
    using rp(2) unat_L by simp
  have d: "mem (snd (snd ?r)) ?rx = dest"
    using rp(4) [of ?rx] unat_L byte [of 1] frame by simp
  have "mem (snd (snd ?r)) (?rx + 1 + i) = ?pl ! i" if "i < ?n" for i
    using rp(4) [of "?rx + 1 + i"] unat_L byte [of "i + 2"] frame that by simp
  then have pl: "load_bytes (?rx + 1) ?n (snd (snd ?r)) = ?pl"
    by (intro nth_equalityI) simp_all
  show ?thesis
    using ok n d pl by (simp add: Let_def)
qed

theorem frame_roundtrip_witness:
  "unat (3 :: u8) + 2 \<le> CC2500_BUFFER_LENGTH bench_board
   \<and> CC2500_BUFFER_LENGTH bench_board \<le> 255
   \<and> p_tx_buffer bench_board + (unat (3 :: u8) + 2) \<le> 0x300
   \<and> [4, 5, 1, 2, 3] \<in> set (fifo_writes
         (events_since ((bench_machine [] [])\<lparr>mem := ram_of 0x300 [1, 2, 3]\<rparr>)
            (machine_of (cc2500_tx_packet bench_board 0x300 3 5
               ((bench_machine [] [])\<lparr>mem := ram_of 0x300 [1, 2, 3]\<rparr>)))))
   \<and> chip_status (bench_machine [4, 5, 1, 2, 3, 0x30, 0x80] []) RXBYTES
         AND NUM_RXBYTES bench_board \<noteq> 0
   \<and> map (rx_fifo (bench_machine [4, 5, 1, 2, 3, 0x30, 0x80] [])) [0..<5] = [4, 5, 1, 2, 3]
   \<and> bit (rx_fifo (bench_machine [4, 5, 1, 2, 3, 0x30, 0x80] []) 6) 7
   \<and> fst (receive_packet bench_board 0x200 5 (bench_machine [4, 5, 1, 2, 3, 0x30, 0x80] [])) \<noteq> 0
   \<and> unat (fst (snd (receive_packet bench_board 0x200 5
         (bench_machine [4, 5, 1, 2, 3, 0x30, 0x80] [])))) = 4
   \<and> mem (snd (snd (receive_packet bench_board 0x200 5
         (bench_machine [4, 5, 1, 2, 3, 0x30, 0x80] [])))) 0x200 = 5
   \<and> load_bytes 0x201 3 (snd (snd (receive_packet bench_board 0x200 5
         (bench_machine [4, 5, 1, 2, 3, 0x30, 0x80] [])))) = [1, 2, 3]"
proof -
  let ?mt = "(bench_machine [] [])\<lparr>mem := ram_of 0x300 [1, 2, 3]\<rparr>"
  let ?mr = "bench_machine [4, 5, 1, 2, 3, 0x30, 0x80] []"
  have fits: "unat (3 :: u8) + 2 \<le> CC2500_BUFFER_LENGTH bench_board"
    and cap: "CC2500_BUFFER_LENGTH bench_board \<le> 255"
    and apart: "0x300 + unat (3 :: u8) \<le> p_tx_buffer bench_board
                \<or> p_tx_buffer bench_board + (unat (3 :: u8) + 2) \<le> 0x300"
    by (simp_all add: bench_board_def)
  have payload: "load_bytes 0x300 3 ?mt = [1, 2, 3]"
    by (simp add: load_bytes_def ram_of_def upt_conv_Cons)
  have sent: "[4, 5, 1, 2, 3] \<in> set (fifo_writes (events_since ?mt
                 (machine_of (cc2500_tx_packet bench_board 0x300 3 5 ?mt))))"
    using cc2500_tx_packet_effect(3) [OF fits cap apart, where dest = 5 and m = ?mt] payload
    by (auto simp: events_since_def)
  have pending: "chip_status ?mr RXBYTES AND NUM_RXBYTES bench_board \<noteq> 0"
    by (simp add: bench_machine_def bench_board_def)
  have fifo: "\<forall>i<length [4, 5, 1, 2, 3 :: u8]. rx_fifo ?mr i = [4, 5, 1, 2, 3] ! i"
    by (auto simp: bench_machine_def fifo_of_def numeral_eq_Suc less_Suc_eq)
  have crc: "bit (rx_fifo ?mr (length [4, 5, 1, 2, 3 :: u8] + 1)) 7"
    by (simp add: bench_machine_def fifo_of_def)
  let ?r = "receive_packet bench_board 0x200 5 ?mr"
  have rx: "p_rx_buffer bench_board = 0x200"
    "(of_nat (CC2500_BUFFER_LENGTH bench_board) :: u8) = 5"
    by (simp_all add: bench_board_def)
  from frame_roundtrip [OF fits cap apart sent pending fifo crc] payload
  have out: "fst ?r \<noteq> 0 \<and> unat (fst (snd ?r)) = 4 \<and> mem (snd (snd ?r)) 0x200 = 5
             \<and> load_bytes 0x201 3 (snd (snd ?r)) = [1, 2, 3]"
    by (simp add: rx Let_def)
  have room: "p_tx_buffer bench_board + (unat (3 :: u8) + 2) \<le> 0x300"
    by (simp add: bench_board_def)
  have bytes: "map (rx_fifo ?mr) [0..<5] = [4, 5, 1, 2, 3]"
    by (simp add: bench_machine_def fifo_of_def upt_conv_Cons)
  have trailer: "bit (rx_fifo ?mr 6) 7"
    by (simp add: bench_machine_def fifo_of_def)
  from fits cap room sent pending bytes trailer out show ?thesis
    by blast
qed

section \<open>Transmit power\<close>

text \<open>Levels inside the table, and levels above 18.\<close>

lemma cc2500_set_power_in_table:
  "unat pwr < 18 \<Longrightarrow>
   cc2500_set_power pwr m = Inr (write_burst_register PATABLE [power_table ! unat pwr] m)"
  by (simp add: cc2500_set_power_def power_table_def)

lemma cc2500_set_power_clamped:
  "18 < unat pwr \<Longrightarrow>
   cc2500_set_power pwr m = Inr (write_burst_register PATABLE [0xFF] m)"
  by (simp add: cc2500_set_power_def power_table_def)

lemma cc2500_set_power_17_255:
  "cc2500_set_power 17 m = Inr (write_burst_register PATABLE [0xFF] m)"
  "cc2500_set_power 255 m = Inr (write_burst_register PATABLE [0xFF] m)"
  by (simp_all add: cc2500_set_power_def power_table_def)

text \<open>
  C2.  Level 18 is the table bound, the first level behind the 18 entries.  The
  test \<open>power > sizeof(power_table)\<close> lets it through, and \<open>cc2500_set_power\<close>
  reads \<open>power_table[18]\<close>, one element behind the table, where the claim has the
  last entry \<open>0xFF\<close> written.
\<close>

theorem cc2500_set_power_overrun:
  "cc2500_set_power 18 m = Inl (Table_overrun 18)"
  by (simp add: cc2500_set_power_def power_table_def)

end
